theory Spec2Isabelle
  imports Complex_Main
begin

section \<open>Numeric model\<close>

text \<open>
  The scripts compute with Python and numpy floating-point numbers. They are modelled
  here by the real numbers: rounding and overflow are outside the model. An arithmetic
  result that is not a finite real number (numpy's \<open>nan\<close> and \<open>inf\<close>, or a
  raised arithmetic error) is the value \<open>None\<close>. The doubles follow the reals up to
  rounding in the last digits only while no intermediate value overflows and the step
  \<open>1e-6\<close> is not absorbed by \<open>x\<close>; a statement that compares two computed values
  therefore carries bounds on its arguments. Where the rounding itself decides a
  statement, the double-precision operations are modelled as well, in the last section of
  the definitions.
\<close>

text \<open>
  \<open>a ** x\<close> and \<open>np.power(a, x)\<close> on floats. A positive base gives the real power.
  Base zero gives 0 for a positive exponent, 1 for exponent 0 and no finite value for a
  negative exponent. A negative base has a real value for an integral exponent only.
\<close>

definition py_pow :: "real \<Rightarrow> real \<Rightarrow> real option" where
  "py_pow a x =
     (if 0 < a then Some (a powr x)
      else if a = 0 then (if 0 < x then Some 0 else if x = 0 then Some 1 else None)
      else if x \<in> \<int> then Some (a powi \<lfloor>x\<rfloor>)
      else None)"

text \<open>\<open>np.log(a)\<close>: finite for a positive argument only.\<close>

definition np_log :: "real \<Rightarrow> real option" where
  "np_log a = (if 0 < a then Some (ln a) else None)"

text \<open>
  Python's \<open>a % b\<close> on floats: the remainder takes the sign of the divisor, and a zero
  divisor raises \<open>ZeroDivisionError\<close>.
\<close>

definition py_mod :: "real \<Rightarrow> real \<Rightarrow> real option" where
  "py_mod a b = (if b = 0 then None else Some (a - b * of_int \<lfloor>a / b\<rfloor>))"

section \<open>Exponential slopes (\<open>01_ExponentialSlopes.py\<close>)\<close>

text \<open>
  \<open>get_slope_angle(self, fun, x)\<close>
  \<^verbatim>\<open>
    df = lambda x: (fun(x + 1e-6) - fun(x)) / 1e-6
    slope = df(x)
    angle = np.arctan(slope)
    return angle
  \<close>
  The argument \<open>fun\<close> is any Python callable, so it may have no finite value at a point.
\<close>

definition get_slope_angle :: "(real \<Rightarrow> real option) \<Rightarrow> real \<Rightarrow> real option" where
  "get_slope_angle f x =
     (case f (x + 1 / 1000000) of
        None \<Rightarrow> None
      | Some y1 \<Rightarrow>
          (case f x of
             None \<Rightarrow> None
           | Some y0 \<Rightarrow> Some (arctan ((y1 - y0) / (1 / 1000000)))))"


text \<open>The two plotted functions: \<open>fun1 = lambda x: np.power(2, x)\<close> and \<open>fun2\<close> with 3.\<close>

definition fun1 :: "real \<Rightarrow> real option" where
  "fun1 x = py_pow 2 x"

definition fun2 :: "real \<Rightarrow> real option" where
  "fun2 x = py_pow 3 x"

section \<open>Euler's number (\<open>02_EulerNumber.py\<close>)\<close>

text \<open>
  The closures \<open>get_val\<close> and \<open>get_slope\<close> read the two trackers; the trackers'
  current values are the arguments \<open>a\<close> and \<open>x\<close>.
  \<^verbatim>\<open>
    def get_val():   return a ** x
    def get_slope(): return np.log(a) * (a ** x)
  \<close>
\<close>

definition get_val :: "real \<Rightarrow> real \<Rightarrow> real option" where
  "get_val a x = py_pow a x"

definition get_slope :: "real \<Rightarrow> real \<Rightarrow> real option" where
  "get_slope a x =
     (case np_log a of
        None \<Rightarrow> None
      | Some l \<Rightarrow> (case py_pow a x of None \<Rightarrow> None | Some p \<Rightarrow> Some (l * p)))"

section \<open>Rotating phasor (\<open>03_ComplexJRotation.py\<close>, \<open>04_EulerLiveVisualization.py\<close>)\<close>

text \<open>
  The tip of the arrow is \<open>np.exp(1j * theta)\<close>; the complex plane's \<open>n2p\<close> places a
  complex number at the point of its real and imaginary part.
\<close>

definition phasor :: "real \<Rightarrow> complex" where
  "phasor theta = exp (\<i> * complex_of_real theta)"

definition phasorPoint :: "real \<Rightarrow> real \<times> real" where
  "phasorPoint theta = (Re (phasor theta), Im (phasor theta))"

section \<open>Phase colour (\<open>03_ComplexJRotation.py\<close>)\<close>

text \<open>
  The four anchor colours \<open>BLUE\<close>, \<open>GREEN\<close>, \<open>RED\<close>, \<open>PURPLE\<close> are constants of the
  rendering library; they are the fields of a palette, and every result holds for any
  palette.
\<close>

record 'c palette =
  BLUE :: 'c
  GREEN :: 'c
  RED :: 'c
  PURPLE :: 'c

text \<open>
  \<open>get_current_color(self, angle)\<close>. The library's \<open>interpolate_color\<close> is the
  parameter \<open>interp\<close>.
\<close>

definition get_current_color ::
    "('c \<Rightarrow> 'c \<Rightarrow> real \<Rightarrow> 'd) \<Rightarrow> 'c palette \<Rightarrow> real \<Rightarrow> 'd option" where
  "get_current_color interp pal angle =
     (case py_mod angle (2 * pi) of
        None \<Rightarrow> None
      | Some normalized_angle \<Rightarrow>
          Some
            (if normalized_angle \<le> pi / 2 then
               interp (BLUE pal) (GREEN pal) (normalized_angle / (pi / 2))
             else if normalized_angle \<le> pi then
               interp (GREEN pal) (RED pal) ((normalized_angle - pi / 2) / (pi / 2))
             else if normalized_angle \<le> 3 * pi / 2 then
               interp (RED pal) (PURPLE pal) ((normalized_angle - pi) / (pi / 2))
             else
               interp (PURPLE pal) (BLUE pal) ((normalized_angle - 3 * pi / 2) / (pi / 2))))"

type_synonym rgb = "real \<times> real \<times> real"

text \<open>
  Modelled from the spec: \<open>interpolate_color\<close> is a function of the rendering library,
  not of this repository. The specification says that it interpolates linearly in each RGB
  channel, with the fraction 0 giving the first colour and 1 the second.
\<close>

definition interpolate_color :: "rgb \<Rightarrow> rgb \<Rightarrow> real \<Rightarrow> rgb" where
  "interpolate_color c1 c2 alpha =
     ((1 - alpha) * fst c1 + alpha * fst c2,
      (1 - alpha) * fst (snd c1) + alpha * fst (snd c2),
      (1 - alpha) * snd (snd c1) + alpha * snd (snd c2))"

definition phaseColor :: "rgb palette \<Rightarrow> real \<Rightarrow> rgb option" where
  "phaseColor pal theta = get_current_color interpolate_color pal theta"

text \<open>
  The phase colour as the specification words it, for comparison with the code: reduce the
  angle modulo \<open>2\<pi>\<close> into \<open>[0, 2\<pi>)\<close>, take the segment of width \<open>\<pi>/2\<close> that holds
  the reduced angle, and interpolate from the segment's anchor colour to the next one in
  the cycle with the fraction \<open>(reduced - segment_start) / (\<pi>/2)\<close>.
\<close>

definition phaseColor_spec :: "rgb palette \<Rightarrow> real \<Rightarrow> rgb" where
  "phaseColor_spec pal theta =
     (let reduced = theta - 2 * pi * of_int \<lfloor>theta / (2 * pi)\<rfloor>;
          colors = [BLUE pal, GREEN pal, RED pal, PURPLE pal];
          segment = nat \<lfloor>reduced / (pi / 2)\<rfloor>;
          segment_start = real segment * (pi / 2);
          fraction = (reduced - segment_start) / (pi / 2)
      in interpolate_color (colors ! segment) (colors ! ((segment + 1) mod 4)) fraction)"

section \<open>The slope triangle in double precision (\<open>01_ExponentialSlopes.py\<close>)\<close>








section \<open>Properties\<close>

subsection \<open>The exponential value and its derivative\<close>

lemma py_pow_pos: "0 < a \<Longrightarrow> py_pow a x = Some (a powr x)"
  by (simp add: py_pow_def)

lemma np_log_pos: "0 < a \<Longrightarrow> np_log a = Some (ln a)"
  by (simp add: np_log_def)

lemma get_slope_pos: "0 < a \<Longrightarrow> get_slope a x = Some (ln a * a powr x)"
  by (simp add: get_slope_def np_log_pos py_pow_pos)

text \<open>
  C1. At the base \<open>e = np.exp(1)\<close> the value \<open>get_val\<close> and the derivative
  \<open>get_slope\<close> are both defined and equal for every real \<open>x\<close>; in particular they
  agree within the relative tolerance \<open>1e-9\<close>.
\<close>

theorem value_eq_derivative_at_e:
  "\<exists>v d. get_val (exp 1) x = Some v \<and> get_slope (exp 1) x = Some d \<and> v = d
      \<and> \<bar>v - d\<bar> \<le> (1 / 10 ^ 9) * \<bar>v\<bar> \<and> v = exp x"
  by (simp add: get_val_def get_slope_pos py_pow_pos powr_def)

text \<open>
  C3. For a base \<open>0 < base\<close>, \<open>base \<noteq> 1\<close> and every real \<open>x\<close>, the evaluator
  returns the value \<open>base^x = exp (x * ln base)\<close> and the derivative
  \<open>ln base * base^x\<close>; at \<open>x = 0\<close> the bases 2 and 3 give \<open>(1, ln 2)\<close> and
  \<open>(1, ln 3)\<close>.
\<close>

theorem exp_value_and_derivative:
  "0 < base \<Longrightarrow> base \<noteq> 1 \<Longrightarrow>
     get_val base x = Some (exp (x * ln base)) \<and>
     get_slope base x = Some (ln base * exp (x * ln base)) \<and>
     get_val 2 0 = Some 1 \<and> get_slope 2 0 = Some (ln 2) \<and>
     get_val 3 0 = Some 1 \<and> get_slope 3 0 = Some (ln 3)"
  by (simp add: get_val_def get_slope_pos py_pow_pos powr_def)

theorem exp_value_and_derivative_witness:
  "(0::real) < 5 \<and> (5::real) \<noteq> 1 \<and>
   get_val 5 1 = Some 5 \<and> get_slope 5 1 = Some (ln 5 * 5)"
  using exp_value_and_derivative [of 5 1] by simp

subsection \<open>The slope angle and the slope triangle\<close>

lemma get_slope_angle_Some:
  "f x = Some y0 \<Longrightarrow> f (x + 1 / 1000000) = Some y1 \<Longrightarrow>
   get_slope_angle f x = Some (arctan ((y1 - y0) / (1 / 1000000)))"
  unfolding get_slope_angle_def by simp

text \<open>
  C2. When \<open>f\<close> has a finite value at every point of \<open>[x, x + 1e-6]\<close>, the slope
  angle is the arctangent of the forward difference quotient with step \<open>1e-6\<close>, and it
  lies strictly between \<open>-\<pi>/2\<close> and \<open>\<pi>/2\<close>.
\<close>

theorem slope_angle_forward_difference:
  assumes "\<forall>t \<in> {x .. x + 1 / 1000000}. f t \<noteq> None"
  shows "\<exists>y0 y1 angle. f x = Some y0 \<and> f (x + 1 / 1000000) = Some y1 \<and>
     get_slope_angle f x = Some angle \<and> angle = arctan ((y1 - y0) / (1 / 1000000))
     \<and> - (pi / 2) < angle \<and> angle < pi / 2"
proof -
  from assms obtain y0 where y0: "f x = Some y0" by fastforce
  from assms obtain y1 where y1: "f (x + 1 / 1000000) = Some y1" by fastforce
  let ?a = "arctan ((y1 - y0) / (1 / 1000000))"
  have "get_slope_angle f x = Some ?a" by (rule get_slope_angle_Some [OF y0 y1])
  moreover have "- (pi / 2) < ?a" by (rule arctan_lbound)
  moreover have "?a < pi / 2" by (rule arctan_ubound)
  ultimately show ?thesis using y0 y1 by blast
qed

theorem slope_angle_forward_difference_witness:
  "get_slope_angle (\<lambda>t. Some t) 0 = Some (arctan ((1 / 1000000 - 0) / (1 / 1000000)))
   \<and> get_slope_angle (\<lambda>t. Some t) 0 = Some (pi / 4)"
  using slope_angle_forward_difference [of 0 Some] by (auto simp: arctan_one)



subsection \<open>The phasor point\<close>

lemma phasorPoint_cos_sin: "phasorPoint theta = (cos theta, sin theta)"
  by (simp add: phasorPoint_def phasor_def Re_exp Im_exp)

text \<open>
  C7. The phasor point lies on the unit circle: the squares of its two coordinates add up
  to 1, so the sum is within \<open>1e-9\<close> of 1.
\<close>

theorem phasor_on_unit_circle:
  "(fst (phasorPoint theta))\<^sup>2 + (snd (phasorPoint theta))\<^sup>2 = 1
   \<and> \<bar>(fst (phasorPoint theta))\<^sup>2 + (snd (phasorPoint theta))\<^sup>2 - 1\<bar> \<le> 1 / 10 ^ 9"
  by (simp add: phasorPoint_cos_sin)

lemma phasorPoint_quarter_turns:
  "phasorPoint (of_int k * (pi / 2)) \<in> {(1, 0), (0, 1), (-1, 0), (0, -1)}"
proof -
  define q where "q = k div 4"
  define r where "r = k mod 4"
  have k: "k = 4 * q + r" by (simp add: q_def r_def)
  have r: "r = 0 \<or> r = 1 \<or> r = 2 \<or> r = 3"
    unfolding r_def by presburger
  have eq: "of_int k * (pi / 2) = of_int r * (pi / 2) + (2 * pi) * of_int q"
    unfolding k by (simp add: algebra_simps)
  have c: "cos (of_int k * (pi / 2)) = cos (of_int r * (pi / 2))"
    unfolding eq cos_add by simp
  have s: "sin (of_int k * (pi / 2)) = sin (of_int r * (pi / 2))"
    unfolding eq sin_add by simp
  have p: "phasorPoint (of_int k * (pi / 2)) = phasorPoint (of_int r * (pi / 2))"
    unfolding phasorPoint_cos_sin c s ..
  have p0: "phasorPoint (of_int 0 * (pi / 2)) = (1, 0)"
    by (simp add: phasorPoint_cos_sin)
  have p1: "phasorPoint (of_int 1 * (pi / 2)) = (0, 1)"
    by (simp add: phasorPoint_cos_sin)
  have p2: "phasorPoint (of_int 2 * (pi / 2)) = (-1, 0)"
    by (simp add: phasorPoint_cos_sin)
  have p3: "phasorPoint (of_int 3 * (pi / 2)) = (0, -1)"
    using cos_3over2_pi sin_3over2_pi by (simp add: phasorPoint_cos_sin)
  from r show ?thesis
    unfolding p using p0 p1 p2 p3 by auto
qed

text \<open>
  C8. The phasor point has period \<open>2\<pi>\<close>; at every integer multiple of \<open>\<pi>/2\<close> it is
  one of \<open>(1,0)\<close>, \<open>(0,1)\<close>, \<open>(-1,0)\<close>, \<open>(0,-1)\<close>; and at \<open>0\<close>, \<open>\<pi>/2\<close>, \<open>\<pi>\<close>,
  \<open>3\<pi>/2\<close> it is these four points in this order.
\<close>

theorem phasor_periodic_quarter_turns:
  "phasorPoint (theta + 2 * pi) = phasorPoint theta
  \<and> (\<forall>k::int. phasorPoint (of_int k * (pi / 2)) \<in> {(1, 0), (0, 1), (-1, 0), (0, -1)})
  \<and> phasorPoint 0 = (1, 0) \<and> phasorPoint (pi / 2) = (0, 1)
  \<and> phasorPoint pi = (-1, 0) \<and> phasorPoint (3 * pi / 2) = (0, -1)"
proof -
  have "phasorPoint (3 * pi / 2) = (0, -1)"
    using cos_3over2_pi sin_3over2_pi by (simp add: phasorPoint_cos_sin)
  moreover have "phasorPoint (theta + 2 * pi) = phasorPoint theta"
    by (simp add: phasorPoint_cos_sin)
  moreover have "phasorPoint 0 = (1, 0) \<and> phasorPoint (pi / 2) = (0, 1)
      \<and> phasorPoint pi = (-1, 0)"
    by (simp add: phasorPoint_cos_sin)
  ultimately show ?thesis using phasorPoint_quarter_turns by blast
qed

subsection \<open>Totality and the range of the interpolation fraction\<close>

lemma py_mod_2pi:
  "\<exists>r. py_mod theta (2 * pi) = Some r \<and> r = theta - 2 * pi * of_int \<lfloor>theta / (2 * pi)\<rfloor>
       \<and> 0 \<le> r \<and> r < 2 * pi"
proof -
  let ?k = "\<lfloor>theta / (2 * pi)\<rfloor>"
  have P: "0 < 2 * pi" by simp
  have "of_int ?k \<le> theta / (2 * pi)" by (rule of_int_floor_le)
  then have lo: "of_int ?k * (2 * pi) \<le> theta" by (simp only: pos_le_divide_eq [OF P])
  have "theta / (2 * pi) < of_int ?k + 1" by linarith
  then have hi: "theta < (of_int ?k + 1) * (2 * pi)" by (simp only: pos_divide_less_eq [OF P])
  have "py_mod theta (2 * pi) = Some (theta - 2 * pi * of_int ?k)"
    by (simp add: py_mod_def)
  moreover have "0 \<le> theta - 2 * pi * of_int ?k" using lo by (simp add: algebra_simps)
  moreover have "theta - 2 * pi * of_int ?k < 2 * pi" using hi by (simp add: algebra_simps)
  ultimately show ?thesis by blast
qed

lemma fraction_in_unit:
  assumes "0 \<le> r" "r < 2 * pi"
  shows "0 \<le> (if r \<le> pi / 2 then r / (pi / 2)
             else if r \<le> pi then (r - pi / 2) / (pi / 2)
             else if r \<le> 3 * pi / 2 then (r - pi) / (pi / 2)
             else (r - 3 * pi / 2) / (pi / 2))
       \<and> (if r \<le> pi / 2 then r / (pi / 2)
             else if r \<le> pi then (r - pi / 2) / (pi / 2)
             else if r \<le> 3 * pi / 2 then (r - pi) / (pi / 2)
             else (r - 3 * pi / 2) / (pi / 2)) \<le> 1"
  using assms pi_gt_zero by (auto simp: field_simps)

text \<open>
  C9. Every function returns a value on its documented domain: the slope angle for a
  function with finite values, the exponential value and derivative for every positive
  base, the phasor point and the phase colour for every real angle, negative ones
  included. The reduced angle of the phase colour lies in \<open>[0, 2\<pi>)\<close>, and the fraction
  handed to the colour interpolator, whichever of the four branches is taken, lies in
  \<open>[0, 1]\<close>.
\<close>

theorem all_functions_total:
  "(\<exists>angle. get_slope_angle (\<lambda>t. Some (g t)) x = Some angle)
   \<and> (0 < base \<longrightarrow> (\<exists>v d. get_val base x = Some v \<and> get_slope base x = Some d))
   \<and> phasorPoint theta = (cos theta, sin theta)
   \<and> (\<exists>c. get_current_color interp pal theta = Some c)
   \<and> (\<exists>r. py_mod theta (2 * pi) = Some r \<and> 0 \<le> r \<and> r < 2 * pi)
   \<and> (\<exists>alpha. get_current_color (\<lambda>c1 c2 alpha. alpha) pal theta = Some alpha
          \<and> 0 \<le> alpha \<and> alpha \<le> 1)"
proof -
  obtain r where r: "py_mod theta (2 * pi) = Some r" "0 \<le> r" "r < 2 * pi"
    using py_mod_2pi by blast
  have a: "\<exists>angle. get_slope_angle (\<lambda>t. Some (g t)) x = Some angle"
    by (simp add: get_slope_angle_def)
  have b: "0 < base \<longrightarrow> (\<exists>v d. get_val base x = Some v \<and> get_slope base x = Some d)"
    by (simp add: get_val_def py_pow_pos get_slope_pos)
  have c: "\<exists>c. get_current_color interp pal theta = Some c"
    by (simp add: get_current_color_def r(1))
  have d: "\<exists>alpha. get_current_color (\<lambda>c1 c2 alpha. alpha) pal theta = Some alpha
          \<and> 0 \<le> alpha \<and> alpha \<le> 1"
    unfolding get_current_color_def r(1) using fraction_in_unit [OF r(2,3)] by simp
  show ?thesis using a b c d r phasorPoint_cos_sin by blast
qed

theorem all_functions_total_witness:
  "(0::real) < 2
   \<and> (\<exists>v d. get_val 2 3 = Some v \<and> get_slope 2 3 = Some d)
   \<and> (\<exists>r. py_mod (- 1) (2 * pi) = Some r \<and> 0 \<le> r \<and> r < 2 * pi)
   \<and> (\<exists>alpha. get_current_color (\<lambda>c1 c2 alpha. alpha)
          \<lparr>BLUE = (), GREEN = (), RED = (), PURPLE = ()\<rparr> (- 1) = Some alpha
          \<and> 0 \<le> alpha \<and> alpha \<le> 1)"
  using all_functions_total [where base = 2 and x = 3 and g = "\<lambda>t. t" and theta = "- 1"
      and interp = "\<lambda>c1 c2 alpha. alpha"
      and pal = "\<lparr>BLUE = (), GREEN = (), RED = (), PURPLE = ()\<rparr>"]
  by simp

subsection \<open>The phase colour against its specification\<close>

lemma interpolate_color_0: "interpolate_color c1 c2 0 = c1"
  by (simp add: interpolate_color_def)

lemma interpolate_color_1: "interpolate_color c1 c2 1 = c2"
  by (simp add: interpolate_color_def)

lemma get_current_color_reduced:
  "py_mod theta (2 * pi) = Some r \<Longrightarrow>
   get_current_color interp pal theta =
     Some (if r \<le> pi / 2 then interp (BLUE pal) (GREEN pal) (r / (pi / 2))
           else if r \<le> pi then interp (GREEN pal) (RED pal) ((r - pi / 2) / (pi / 2))
           else if r \<le> 3 * pi / 2 then interp (RED pal) (PURPLE pal) ((r - pi) / (pi / 2))
           else interp (PURPLE pal) (BLUE pal) ((r - 3 * pi / 2) / (pi / 2)))"
  by (simp add: get_current_color_def)

lemma segment_interp:
  assumes r: "py_mod theta (2 * pi) = Some r"
    and k: "k < 4" and lo: "real k * (pi / 2) \<le> r" and hi: "r \<le> (real k + 1) * (pi / 2)"
  shows "phaseColor pal theta =
     Some (interpolate_color ([BLUE pal, GREEN pal, RED pal, PURPLE pal] ! k)
        ([BLUE pal, GREEN pal, RED pal, PURPLE pal] ! ((k + 1) mod 4))
        ((r - real k * (pi / 2)) / (pi / 2)))"
proof -
  note gcc = get_current_color_reduced [OF r, of interpolate_color pal, folded phaseColor_def]
  from k consider "k = 0" | "k = 1" | "k = 2" | "k = 3" by linarith
  then show ?thesis
  proof cases
    case 1
    then show ?thesis using lo hi by (simp add: gcc)
  next
    case 2
    show ?thesis
    proof (cases "r = pi / 2")
      case True
      then show ?thesis using 2 by (simp add: gcc interpolate_color_0 interpolate_color_1)
    next
      case False
      then have "\<not> r \<le> pi / 2" "r \<le> pi" using lo hi 2 by simp_all
      then show ?thesis using 2 by (simp add: gcc)
    qed
  next
    case 3
    show ?thesis
    proof (cases "r = pi")
      case True
      then show ?thesis using 3 pi_gt_zero
        by (simp add: gcc interpolate_color_0 interpolate_color_1)
    next
      case False
      then have "\<not> r \<le> pi / 2" "\<not> r \<le> pi" "r \<le> 3 * pi / 2" using lo hi 3 pi_gt_zero by simp_all
      then show ?thesis using 3 by (simp add: gcc)
    qed
  next
    case 4
    show ?thesis
    proof (cases "r = 3 * pi / 2")
      case True
      have f: "(r - pi) / (pi / 2) = 1" unfolding True by (simp add: field_simps)
      have b: "\<not> r \<le> pi / 2" "\<not> r \<le> pi" "r \<le> 3 * pi / 2"
        unfolding True using pi_gt_zero by simp_all
      have "phaseColor pal theta = Some (PURPLE pal)"
        unfolding gcc by (simp only: b if_True if_False f interpolate_color_1)
      moreover have "(r - real k * (pi / 2)) / (pi / 2) = 0" unfolding True 4 by simp
      ultimately show ?thesis using 4 by (simp add: interpolate_color_0)
    next
      case False
      then have "\<not> r \<le> pi / 2" "\<not> r \<le> pi" "\<not> r \<le> 3 * pi / 2" using lo hi 4 pi_gt_zero by simp_all
      then show ?thesis using 4 by (simp add: gcc)
    qed
  qed
qed

lemma segment_index:
  assumes "0 \<le> r" "r < 2 * pi"
  shows "nat \<lfloor>r / (pi / 2)\<rfloor> < 4 \<and> real (nat \<lfloor>r / (pi / 2)\<rfloor>) * (pi / 2) \<le> r
     \<and> r \<le> (real (nat \<lfloor>r / (pi / 2)\<rfloor>) + 1) * (pi / 2)"
proof -
  let ?q = "r / (pi / 2)"
  have h: "0 < pi / 2" by simp
  have q0: "0 \<le> ?q" using assms(1) by simp
  have q4: "?q < 4" using assms(2) by (simp add: field_simps)
  have f0: "0 \<le> \<lfloor>?q\<rfloor>" using q0 by simp
  have f4: "\<lfloor>?q\<rfloor> < 4" using q4 by (simp add: floor_less_iff)
  have n: "real (nat \<lfloor>?q\<rfloor>) = of_int \<lfloor>?q\<rfloor>" using f0 by simp
  have lo: "of_int \<lfloor>?q\<rfloor> \<le> ?q" by linarith
  have hi: "?q \<le> of_int \<lfloor>?q\<rfloor> + 1" by linarith
  have lo': "of_int \<lfloor>?q\<rfloor> * (pi / 2) \<le> r"
    using lo by (simp only: pos_le_divide_eq [OF h])
  have hi': "r \<le> (of_int \<lfloor>?q\<rfloor> + 1) * (pi / 2)"
    using hi by (simp only: pos_divide_le_eq [OF h])
  have "nat \<lfloor>?q\<rfloor> < 4" using f0 f4 by linarith
  then show ?thesis unfolding n using lo' hi' by blast
qed

text \<open>
  C5. For every real angle the phase colour computed by the code is the one the
  specification describes: the angle is reduced modulo \<open>2\<pi>\<close> into \<open>[0, 2\<pi>)\<close>, the
  reduced angle selects one of four segments of width \<open>\<pi>/2\<close>, and the colour is
  interpolated linearly in each channel from the segment's anchor to the next anchor of
  the cycle, with the fraction \<open>(reduced - segment_start) / (\<pi>/2)\<close>.
\<close>

theorem phaseColor_refines_spec:
  "phaseColor pal theta = Some (phaseColor_spec pal theta)
   \<and> 0 \<le> theta - 2 * pi * of_int \<lfloor>theta / (2 * pi)\<rfloor>
   \<and> theta - 2 * pi * of_int \<lfloor>theta / (2 * pi)\<rfloor> < 2 * pi
   \<and> nat \<lfloor>(theta - 2 * pi * of_int \<lfloor>theta / (2 * pi)\<rfloor>) / (pi / 2)\<rfloor> < 4"
proof -
  obtain r where r: "py_mod theta (2 * pi) = Some r"
      "r = theta - 2 * pi * of_int \<lfloor>theta / (2 * pi)\<rfloor>" "0 \<le> r" "r < 2 * pi"
    using py_mod_2pi by blast
  let ?k = "nat \<lfloor>r / (pi / 2)\<rfloor>"
  from segment_index [OF r(3,4)]
  have k: "?k < 4" "real ?k * (pi / 2) \<le> r" "r \<le> (real ?k + 1) * (pi / 2)" by blast+
  have "phaseColor pal theta = Some (phaseColor_spec pal theta)"
    unfolding segment_interp [OF r(1) k] phaseColor_spec_def Let_def r(2) ..
  then show ?thesis using r(3,4) k(1) unfolding r(2) by blast
qed

subsection \<open>Anchor colours, period and continuity of the phase colour\<close>

lemma continuous_on_if_le:
  fixes f g :: "real \<Rightarrow> 'b::topological_space"
  assumes f: "continuous_on UNIV f" and g: "continuous_on UNIV g" and eq: "f a = g a"
  shows "continuous_on UNIV (\<lambda>x. if x \<le> a then f x else g x)"
proof -
  have "continuous_on ({..a} \<union> {a..}) (\<lambda>x. if x \<le> a then f x else g x)"
  proof (rule continuous_on_If)
    show "closed {..a}" "closed {a..}" by simp_all
    show "continuous_on {..a} f" using f by (rule continuous_on_subset) simp
    show "continuous_on {a..} g" using g by (rule continuous_on_subset) simp
    show "\<And>x. x \<in> {..a} \<Longrightarrow> \<not> x \<le> a \<Longrightarrow> f x = g x" by simp
    show "\<And>x. x \<in> {a..} \<Longrightarrow> x \<le> a \<Longrightarrow> f x = g x" using eq by auto
  qed
  moreover have "{..a} \<union> {a..} = (UNIV :: real set)" by auto
  ultimately show ?thesis by simp
qed

lemma continuous_on_segment:
  "continuous_on UNIV (\<lambda>r. interpolate_color c1 c2 ((r - a) / (pi / 2)))"
  unfolding interpolate_color_def by (intro continuous_intros) simp_all

lemma continuous_on_branches:
  "continuous_on UNIV (\<lambda>r.
     if r \<le> pi / 2 then interpolate_color (BLUE pal) (GREEN pal) ((r - 0) / (pi / 2))
     else if r \<le> pi then interpolate_color (GREEN pal) (RED pal) ((r - pi / 2) / (pi / 2))
     else if r \<le> 3 * pi / 2 then interpolate_color (RED pal) (PURPLE pal) ((r - pi) / (pi / 2))
     else interpolate_color (PURPLE pal) (BLUE pal) ((r - 3 * pi / 2) / (pi / 2)))"
proof (intro continuous_on_if_le continuous_on_segment)
  have "(3 * pi / 2 - pi) / (pi / 2) = 1" by (simp add: field_simps)
  then show "interpolate_color (RED pal) (PURPLE pal) ((3 * pi / 2 - pi) / (pi / 2)) =
    interpolate_color (PURPLE pal) (BLUE pal) ((3 * pi / 2 - 3 * pi / 2) / (pi / 2))"
    by (simp add: interpolate_color_0 interpolate_color_1)
  have "(pi - pi / 2) / (pi / 2) = 1" by (simp add: field_simps)
  then show "interpolate_color (GREEN pal) (RED pal) ((pi - pi / 2) / (pi / 2)) =
    (if pi \<le> 3 * pi / 2 then interpolate_color (RED pal) (PURPLE pal) ((pi - pi) / (pi / 2))
     else interpolate_color (PURPLE pal) (BLUE pal) ((pi - 3 * pi / 2) / (pi / 2)))"
    by (simp add: interpolate_color_0 interpolate_color_1)
  show "interpolate_color (BLUE pal) (GREEN pal) ((pi / 2 - 0) / (pi / 2)) =
    (if pi / 2 \<le> pi then interpolate_color (GREEN pal) (RED pal) ((pi / 2 - pi / 2) / (pi / 2))
     else if pi / 2 \<le> 3 * pi / 2 then interpolate_color (RED pal) (PURPLE pal) ((pi / 2 - pi) / (pi / 2))
     else interpolate_color (PURPLE pal) (BLUE pal) ((pi / 2 - 3 * pi / 2) / (pi / 2)))"
    by (simp add: interpolate_color_0 interpolate_color_1)
qed


lemma reduce_in_period:
  fixes P :: real
  assumes P: "0 < P" and lo: "of_int k * P \<le> t" and hi: "t < (of_int k + 1) * P"
  shows "t - P * of_int \<lfloor>t / P\<rfloor> = t - of_int k * P"
proof -
  have "of_int k \<le> t / P" using lo by (simp only: pos_le_divide_eq [OF P])
  moreover have "t / P < of_int k + 1" using hi by (simp only: pos_divide_less_eq [OF P])
  ultimately have "\<lfloor>t / P\<rfloor> = k" by (rule floor_unique)
  then show ?thesis by (simp add: mult.commute)
qed

lemma isCont_periodic_extension:
  fixes g :: "real \<Rightarrow> 'b::topological_space"
  assumes P: "0 < P" and g: "continuous_on UNIV g" and wrap: "g P = g 0"
  shows "isCont (\<lambda>t. g (t - P * of_int \<lfloor>t / P\<rfloor>)) t0"
proof -
  define k where "k = \<lfloor>t0 / P\<rfloor>"
  define G where "G = (\<lambda>s. if s \<le> 0 then g (s + P) else g s)"
  have "of_int k \<le> t0 / P" "t0 / P < of_int k + 1" unfolding k_def by linarith+
  then have t0: "of_int k * P \<le> t0" "t0 < (of_int k + 1) * P"
    by (simp_all only: pos_le_divide_eq [OF P] pos_divide_less_eq [OF P])
  have contG: "continuous_on UNIV G"
    unfolding G_def
  proof (rule continuous_on_if_le)
    show "continuous_on UNIV (\<lambda>s. g (s + P))"
      by (rule continuous_on_compose2 [OF g]) (auto intro!: continuous_intros)
    show "continuous_on UNIV g" by (rule g)
    show "g (0 + P) = g 0" using wrap by simp
  qed
  have contGk: "isCont (\<lambda>t. G (t - of_int k * P)) t0"
  proof -
    have "continuous_on UNIV (\<lambda>t. G (t - of_int k * P))"
      by (rule continuous_on_compose2 [OF contG]) (auto intro!: continuous_intros)
    then show ?thesis by (simp add: continuous_on_eq_continuous_at)
  qed
  let ?U = "{(of_int k - 1) * P <..< (of_int k + 1) * P}"
  have eq: "g (t - P * of_int \<lfloor>t / P\<rfloor>) = G (t - of_int k * P)" if "t \<in> ?U" for t
  proof (cases "of_int k * P \<le> t")
    case True
    have red: "t - P * of_int \<lfloor>t / P\<rfloor> = t - of_int k * P"
      using P True that by (intro reduce_in_period) simp_all
    have nonneg: "0 \<le> t - of_int k * P" using True by simp
    have "G s = g s" if "0 \<le> s" for s
      using that wrap by (cases "s = 0") (simp_all add: G_def)
    from this [OF nonneg] show ?thesis by (simp only: red)
  next
    case False
    have lo: "of_int (k - 1) * P \<le> t" using that by simp
    have hi: "t < (of_int (k - 1) + 1) * P" using False by simp
    have "t - P * of_int \<lfloor>t / P\<rfloor> = t - of_int (k - 1) * P"
      by (rule reduce_in_period [OF P lo hi])
    also have "\<dots> = (t - of_int k * P) + P" by (simp add: algebra_simps)
    finally have red: "t - P * of_int \<lfloor>t / P\<rfloor> = (t - of_int k * P) + P" .
    have neg: "t - of_int k * P \<le> 0" using False by simp
    have "G s = g (s + P)" if "s \<le> 0" for s
      using that by (simp add: G_def)
    from this [OF neg] show ?thesis by (simp only: red)
  qed
  have "eventually (\<lambda>t. g (t - P * of_int \<lfloor>t / P\<rfloor>) = G (t - of_int k * P)) (nhds t0)"
    unfolding eventually_nhds
  proof (intro exI conjI ballI)
    show "open ?U" by simp
    show "t0 \<in> ?U" using t0 P by (simp add: algebra_simps)
    show "\<And>t. t \<in> ?U \<Longrightarrow> g (t - P * of_int \<lfloor>t / P\<rfloor>) = G (t - of_int k * P)"
      by (rule eq)
  qed
  then show ?thesis using contGk by (simp add: isCont_cong)
qed


lemma py_mod_periodic: "py_mod (theta + 2 * pi) (2 * pi) = py_mod theta (2 * pi)"
proof -
  have "(theta + 2 * pi) / (2 * pi) = theta / (2 * pi) + 1"
    by (simp add: field_simps)
  then have "\<lfloor>(theta + 2 * pi) / (2 * pi)\<rfloor> = \<lfloor>theta / (2 * pi)\<rfloor> + 1"
    by simp
  then show ?thesis by (simp add: py_mod_def algebra_simps)
qed

lemma phaseColor_periodic: "phaseColor pal (theta + 2 * pi) = phaseColor pal theta"
  by (simp add: phaseColor_def get_current_color_def py_mod_periodic)

lemma py_mod_quarter_turn:
  "py_mod (of_int k * (pi / 2)) (2 * pi) = Some (real (nat (k mod 4)) * (pi / 2))"
proof -
  define q where "q = k div 4"
  define j where "j = k mod 4"
  have k: "k = 4 * q + j" by (simp add: q_def j_def)
  have j: "0 \<le> j" "j < 4" by (simp_all add: j_def)
  have P: "(0::real) < 2 * pi" by simp
  have "of_int k * (pi / 2) - 2 * pi * of_int \<lfloor>of_int k * (pi / 2) / (2 * pi)\<rfloor>
      = of_int k * (pi / 2) - of_int q * (2 * pi)"
  proof (rule reduce_in_period [OF P])
    show "of_int q * (2 * pi) \<le> of_int k * (pi / 2)"
      unfolding k using j(1) by (simp add: algebra_simps)
    have "of_int j * (pi / 2) < 4 * (pi / 2)"
      using j(2) by (intro mult_strict_right_mono) simp_all
    then show "of_int k * (pi / 2) < (of_int q + 1) * (2 * pi)"
      unfolding k by (simp add: algebra_simps)
  qed
  also have "\<dots> = of_int j * (pi / 2)" unfolding k by (simp add: algebra_simps)
  also have "of_int j = real (nat j)" using j(1) by simp
  finally show ?thesis unfolding j_def by (simp add: py_mod_def)
qed

lemma phaseColor_quarter_turn:
  "phaseColor pal (of_int k * (pi / 2)) =
     Some ([BLUE pal, GREEN pal, RED pal, PURPLE pal] ! nat (k mod 4))"
proof -
  let ?j = "nat (k mod 4)"
  have j: "?j < 4" by simp
  have "phaseColor pal (of_int k * (pi / 2)) =
     Some (interpolate_color ([BLUE pal, GREEN pal, RED pal, PURPLE pal] ! ?j)
        ([BLUE pal, GREEN pal, RED pal, PURPLE pal] ! ((?j + 1) mod 4))
        ((real ?j * (pi / 2) - real ?j * (pi / 2)) / (pi / 2)))"
    by (rule segment_interp [OF py_mod_quarter_turn j]) (simp_all add: algebra_simps)
  then show ?thesis by (simp only: diff_self div_0 interpolate_color_0)
qed

lemma phaseColor_continuous:
  "\<exists>h. (\<forall>theta. phaseColor pal theta = Some (h theta)) \<and> (\<forall>theta. isCont h theta)"
proof -
  define g where "g = (\<lambda>r.
     if r \<le> pi / 2 then interpolate_color (BLUE pal) (GREEN pal) ((r - 0) / (pi / 2))
     else if r \<le> pi then interpolate_color (GREEN pal) (RED pal) ((r - pi / 2) / (pi / 2))
     else if r \<le> 3 * pi / 2 then interpolate_color (RED pal) (PURPLE pal) ((r - pi) / (pi / 2))
     else interpolate_color (PURPLE pal) (BLUE pal) ((r - 3 * pi / 2) / (pi / 2)))"
  have g: "continuous_on UNIV g" unfolding g_def by (rule continuous_on_branches)
  have "(2 * pi - 3 * pi / 2) / (pi / 2) = 1" by (simp add: field_simps)
  moreover have "\<not> 2 * pi \<le> pi / 2" "\<not> 2 * pi \<le> pi" "\<not> 2 * pi \<le> 3 * pi / 2" "0 \<le> pi / 2"
    using pi_gt_zero by simp_all
  ultimately have wrap: "g (2 * pi) = g 0"
    unfolding g_def by (simp only: if_True if_False interpolate_color_1 interpolate_color_0 diff_self div_0)
  have P: "0 < 2 * pi" by simp
  have eq: "phaseColor pal theta = Some (g (theta - 2 * pi * of_int \<lfloor>theta / (2 * pi)\<rfloor>))"
    for theta
    by (simp add: phaseColor_def get_current_color_def py_mod_def g_def)
  have cont: "isCont (\<lambda>t. g (t - 2 * pi * of_int \<lfloor>t / (2 * pi)\<rfloor>)) theta" for theta
    by (rule isCont_periodic_extension [OF P g wrap])
  show ?thesis
  proof (intro exI conjI allI)
    show "phaseColor pal theta = Some (g (theta - 2 * pi * of_int \<lfloor>theta / (2 * pi)\<rfloor>))"
      for theta by (rule eq)
    show "isCont (\<lambda>t. g (t - 2 * pi * of_int \<lfloor>t / (2 * pi)\<rfloor>)) theta" for theta
      by (rule cont)
  qed
qed

text \<open>
  C6. At the segment boundaries the phase colour is the anchor colour itself: \<open>BLUE\<close> at
  \<open>0\<close>, \<open>GREEN\<close> at \<open>\<pi>/2\<close>, \<open>RED\<close> at \<open>\<pi>\<close>, \<open>PURPLE\<close> at \<open>3\<pi>/2\<close>, and the anchor
  number \<open>k mod 4\<close> at every integer multiple \<open>k\<pi>/2\<close>. The colour at \<open>2\<pi>\<close> is the colour
  at \<open>0\<close>; the last branch at fraction 1 and the first branch at fraction 0 agree; the
  mapping has period \<open>2\<pi>\<close> and is continuous at every angle, the multiples of \<open>\<pi>/2\<close>
  and the wraparound included.
\<close>

theorem phaseColor_boundaries_continuous:
  "phaseColor pal 0 = Some (BLUE pal)
   \<and> phaseColor pal (pi / 2) = Some (GREEN pal)
   \<and> phaseColor pal pi = Some (RED pal)
   \<and> phaseColor pal (3 * pi / 2) = Some (PURPLE pal)
   \<and> phaseColor pal (2 * pi) = phaseColor pal 0
   \<and> (\<forall>k::int. phaseColor pal (of_int k * (pi / 2)) =
          Some ([BLUE pal, GREEN pal, RED pal, PURPLE pal] ! nat (k mod 4)))
   \<and> interpolate_color (PURPLE pal) (BLUE pal) 1 = interpolate_color (BLUE pal) (GREEN pal) 0
   \<and> (\<forall>theta. phaseColor pal (theta + 2 * pi) = phaseColor pal theta)
   \<and> (\<exists>h. (\<forall>theta. phaseColor pal theta = Some (h theta)) \<and> (\<forall>theta. isCont h theta))"
proof -
  have a0: "phaseColor pal 0 = Some (BLUE pal)"
    using phaseColor_quarter_turn [of pal 0] by simp
  have a1: "phaseColor pal (pi / 2) = Some (GREEN pal)"
    using phaseColor_quarter_turn [of pal 1] by simp
  have a2: "phaseColor pal pi = Some (RED pal)"
    using phaseColor_quarter_turn [of pal 2] by simp
  have a3: "phaseColor pal (3 * pi / 2) = Some (PURPLE pal)"
    using phaseColor_quarter_turn [of pal 3] by simp
  have a4: "phaseColor pal (2 * pi) = phaseColor pal 0"
    using phaseColor_periodic [of pal 0] by simp
  have w: "interpolate_color (PURPLE pal) (BLUE pal) 1 = interpolate_color (BLUE pal) (GREEN pal) 0"
    by (simp only: interpolate_color_0 interpolate_color_1)
  show ?thesis
    using a0 a1 a2 a3 a4 w phaseColor_quarter_turn phaseColor_periodic phaseColor_continuous
    by blast
qed

subsection \<open>Finite differences against the analytic derivative\<close>

lemma arctan_diff_MVT:
  assumes "a < b"
  shows "\<exists>z. a < z \<and> z < b \<and> arctan b - arctan a = (b - a) / (1 + z\<^sup>2)"
proof -
  have "\<exists>l z. a < z \<and> z < b \<and> DERIV arctan z :> l \<and> arctan b - arctan a = (b - a) * l"
  proof (rule MVT [OF assms])
    show "continuous_on {a..b} arctan" by (intro continuous_intros)
    show "\<And>x. a < x \<Longrightarrow> x < b \<Longrightarrow> arctan differentiable (at x)"
      using DERIV_arctan real_differentiable_def by blast
  qed
  then obtain l z where z: "a < z" "z < b" "DERIV arctan z :> l"
      "arctan b - arctan a = (b - a) * l" by blast
  have "l = inverse (1 + z\<^sup>2)" using z(3) DERIV_arctan by (rule DERIV_unique)
  then show ?thesis using z by (auto simp: divide_inverse)
qed

lemma arctan_diff_upper_nonneg:
  assumes "0 \<le> a" "a \<le> b"
  shows "arctan b - arctan a \<le> (b - a) / (1 + a\<^sup>2)"
proof (cases "a = b")
  case True then show ?thesis by simp
next
  case False
  then have "a < b" using assms by simp
  then obtain z where z: "a < z" "z < b" "arctan b - arctan a = (b - a) / (1 + z\<^sup>2)"
    using arctan_diff_MVT by blast
  have "a\<^sup>2 \<le> z\<^sup>2" using assms(1) z(1) by (intro power_mono) simp_all
  then have "(b - a) / (1 + z\<^sup>2) \<le> (b - a) / (1 + a\<^sup>2)"
    using assms(2) by (intro divide_left_mono) (simp_all add: add_pos_nonneg)
  then show ?thesis using z(3) by simp
qed

lemma arctan_diff_lower_nonneg:
  assumes "0 \<le> a" "a \<le> b"
  shows "(b - a) / (1 + b\<^sup>2) \<le> arctan b - arctan a"
proof (cases "a = b")
  case True then show ?thesis by simp
next
  case False
  then have "a < b" using assms by simp
  then obtain z where z: "a < z" "z < b" "arctan b - arctan a = (b - a) / (1 + z\<^sup>2)"
    using arctan_diff_MVT by blast
  have "z\<^sup>2 \<le> b\<^sup>2" using assms(1) z(1,2) by (intro power_mono) simp_all
  then have "(b - a) / (1 + b\<^sup>2) \<le> (b - a) / (1 + z\<^sup>2)"
    using assms(2) by (intro divide_left_mono) (simp_all add: add_pos_nonneg)
  then show ?thesis using z(3) by simp
qed

lemma arctan_diff_upper_nonpos:
  assumes "a \<le> b" "b \<le> 0"
  shows "arctan b - arctan a \<le> (b - a) / (1 + b\<^sup>2)"
proof -
  have "arctan (- a) - arctan (- b) \<le> (- a - (- b)) / (1 + (- b)\<^sup>2)"
    using assms by (intro arctan_diff_upper_nonneg) simp_all
  then show ?thesis by (simp add: arctan_minus)
qed

lemma exp_upper_cubic:
  fixes u :: real
  assumes "0 \<le> u" "u \<le> 1"
  shows "exp u \<le> 1 + u + u\<^sup>2 / 2 + u ^ 3"
proof -
  define phi where "phi = (\<lambda>t::real. 1 + t + t\<^sup>2 / 2 + t ^ 3 - exp t)"
  have "phi 0 \<le> phi u"
  proof (rule DERIV_nonneg_imp_nondecreasing [OF assms(1)])
    fix t :: real assume t: "0 \<le> t" "t \<le> u"
    have d: "DERIV phi t :> 1 + t + 3 * t\<^sup>2 - exp t"
      unfolding phi_def by (auto intro!: derivative_eq_intros)
    have "exp t \<le> 1 + t + t\<^sup>2" using t assms(2) by (intro exp_bound) simp_all
    then have "0 \<le> 1 + t + 3 * t\<^sup>2 - exp t" using zero_le_power2 [of t] by linarith
    then show "\<exists>y. DERIV phi t :> y \<and> 0 \<le> y" using d by blast
  qed
  then show ?thesis by (simp add: phi_def)
qed

lemma exp_minus_upper_quadratic:
  fixes v :: real
  assumes "0 \<le> v"
  shows "exp (- v) \<le> 1 - v + v\<^sup>2 / 2"
proof -
  define psi where "psi = (\<lambda>t::real. 1 - t + t\<^sup>2 / 2 - exp (- t))"
  have "psi 0 \<le> psi v"
  proof (rule DERIV_nonneg_imp_nondecreasing [OF assms(1)])
    fix t :: real assume t: "0 \<le> t" "t \<le> v"
    have d: "DERIV psi t :> - 1 + t + exp (- t)"
      unfolding psi_def by (auto intro!: derivative_eq_intros)
    have "1 + (- t) \<le> exp (- t)" by (rule exp_ge_add_one_self)
    then have "0 \<le> - 1 + t + exp (- t)" by linarith
    then show "\<exists>y. DERIV psi t :> y \<and> 0 \<le> y" using d by blast
  qed
  then show ?thesis by (simp add: psi_def)
qed


lemma fd_angle_gap_pos:
  fixes u q :: real
  assumes u: "0 \<le> u" "u \<le> 399 / 1000000" and q: "0 < q"
  shows "arctan (q * (exp u - 1)) - arctan (q * u) < 1 / 10000"
proof -
  let ?a = "q * u" and ?b = "q * (exp u - 1)"
  have a0: "0 \<le> ?a" using u(1) q by simp
  have "u \<le> exp u - 1" using exp_ge_add_one_self [of u] by linarith
  then have ab: "?a \<le> ?b" using q by (intro mult_left_mono) simp_all
  have "exp u \<le> 1 + u + u\<^sup>2 / 2 + u ^ 3"
    using u by (intro exp_upper_cubic) simp_all
  then have "exp u - 1 - u \<le> u * (u * (1 / 2 + u))"
    by (simp add: power2_eq_square power3_eq_cube algebra_simps)
  then have "q * (exp u - 1 - u) \<le> q * (u * (u * (1 / 2 + u)))"
    using q by (intro mult_left_mono) simp_all
  then have gap: "?b - ?a \<le> ?a * (u * (1 / 2 + u))"
    by (simp add: algebra_simps)
  have "u * (1 / 2 + u) \<le> (399 / 1000000) * (1 / 2 + 399 / 1000000)"
    using u by (intro mult_mono) simp_all
  also have "\<dots> \<le> 1999 / 10000000" by simp
  finally have c: "u * (1 / 2 + u) \<le> 1999 / 10000000" .
  have "?a * (u * (1 / 2 + u)) \<le> ?a * (1999 / 10000000)"
    using a0 c by (rule mult_left_mono [rotated])
  with gap have gap2: "?b - ?a \<le> ?a * (1999 / 10000000)" by linarith
  have "0 \<le> (?a - 1)\<^sup>2" by simp
  then have am: "2 * ?a \<le> 1 + ?a\<^sup>2" by (simp add: power2_eq_square algebra_simps)
  have pos: "0 < 1 + ?a\<^sup>2" by (simp add: add_pos_nonneg)
  have lin: "G < (1 / 10000) * T"
    if "G \<le> A * (1999 / 10000000)" "2 * A \<le> T" "0 < T" for G A T :: real
    using that by linarith
  have "?b - ?a < (1 / 10000) * (1 + ?a\<^sup>2)" by (rule lin [OF gap2 am pos])
  then have "(?b - ?a) / (1 + ?a\<^sup>2) < 1 / 10000"
    by (simp only: pos_divide_less_eq [OF pos])
  moreover have "arctan ?b - arctan ?a \<le> (?b - ?a) / (1 + ?a\<^sup>2)"
    by (rule arctan_diff_upper_nonneg [OF a0 ab])
  ultimately show ?thesis by linarith
qed

lemma fd_angle_gap_neg:
  fixes v q :: real
  assumes v: "0 \<le> v" "v \<le> 399 / 1000000" and q: "0 < q"
  shows "arctan (q * (exp (- v) - 1)) - arctan (q * (- v)) < 1 / 10000"
proof -
  let ?a = "q * (- v)" and ?b = "q * (exp (- v) - 1)"
  have "- v \<le> exp (- v) - 1" using exp_ge_add_one_self [of "- v"] by linarith
  then have ab: "?a \<le> ?b" using q by (intro mult_left_mono) simp_all
  have "exp (- v) \<le> 1" using v(1) by simp
  then have "exp (- v) - 1 \<le> 0" by simp
  then have b0: "?b \<le> 0" using q by (simp add: mult_le_0_iff)
  have e: "exp (- v) \<le> 1 - v + v\<^sup>2 / 2" by (rule exp_minus_upper_quadratic [OF v(1)])
  then have "exp (- v) - 1 + v \<le> v\<^sup>2 / 2" by simp
  then have "q * (exp (- v) - 1 + v) \<le> q * (v\<^sup>2 / 2)"
    using q by (intro mult_left_mono) simp_all
  then have gap: "?b - ?a \<le> q * (v\<^sup>2 / 2)" by (simp add: algebra_simps)
  define w where "w = q * (v - v\<^sup>2 / 2)"
  have "v * (v / 2) \<le> v * 1" using v by (intro mult_left_mono) simp_all
  then have "0 \<le> v - v\<^sup>2 / 2" by (simp add: power2_eq_square)
  then have w0: "0 \<le> w" using q by (simp add: w_def)
  have "v - v\<^sup>2 / 2 \<le> 1 - exp (- v)" using e by simp
  then have "w \<le> q * (1 - exp (- v))" unfolding w_def using q by (intro mult_left_mono) simp_all
  then have wb: "w \<le> - ?b" by (simp add: algebra_simps)
  have "w\<^sup>2 \<le> (- ?b)\<^sup>2" using wb w0 by (rule power_mono)
  then have wb2: "w\<^sup>2 \<le> ?b\<^sup>2" by simp
  have "0 \<le> (w - 1)\<^sup>2" by simp
  then have "2 * w \<le> 1 + w\<^sup>2" by (simp add: power2_eq_square algebra_simps)
  with wb2 have wm: "2 * w \<le> 1 + ?b\<^sup>2" by linarith
  have small: "v\<^sup>2 / 2 \<le> (19999 / 100000000) * (v - v\<^sup>2 / 2)"
  proof -
    have "v * (v * (1 + 19999 / 100000000)) \<le> v * (2 * (19999 / 100000000))"
      using v by (intro mult_left_mono) simp_all
    then show ?thesis by (simp add: power2_eq_square algebra_simps)
  qed
  have "q * (v\<^sup>2 / 2) \<le> q * ((19999 / 100000000) * (v - v\<^sup>2 / 2))"
    using q small by (intro mult_left_mono) simp_all
  also have "\<dots> = (19999 / 100000000) * w" by (simp add: w_def)
  finally have gw: "?b - ?a \<le> (19999 / 100000000) * w" using gap by linarith
  have pos: "0 < 1 + ?b\<^sup>2" by (simp add: add_pos_nonneg)
  have lin: "G < (1 / 10000) * T"
    if "G \<le> (19999 / 100000000) * w" "0 < T" "2 * w \<le> T" for G T :: real
    using that by linarith
  have "?b - ?a < (1 / 10000) * (1 + ?b\<^sup>2)" by (rule lin [OF gw pos wm])
  then have "(?b - ?a) / (1 + ?b\<^sup>2) < 1 / 10000"
    by (simp only: pos_divide_less_eq [OF pos])
  moreover have "arctan ?b - arctan ?a \<le> (?b - ?a) / (1 + ?b\<^sup>2)"
    by (rule arctan_diff_upper_nonpos [OF ab b0])
  ultimately show ?thesis by linarith
qed

lemma fd_angle_gap:
  fixes u q :: real
  assumes u: "\<bar>u\<bar> \<le> 399 / 1000000" and q: "0 < q"
  shows "\<bar>arctan (q * (exp u - 1)) - arctan (q * u)\<bar> < 1 / 10000"
proof -
  have "u \<le> exp u - 1" using exp_ge_add_one_self [of u] by linarith
  then have "q * u \<le> q * (exp u - 1)" using q by (intro mult_left_mono) simp_all
  then have nonneg: "0 \<le> arctan (q * (exp u - 1)) - arctan (q * u)"
    by (simp add: arctan_le_iff)
  show ?thesis
  proof (cases "0 \<le> u")
    case True
    then show ?thesis using fd_angle_gap_pos [of u q] u q nonneg by simp
  next
    case False
    then have "0 \<le> - u" "- u \<le> 399 / 1000000" using u by simp_all
    from fd_angle_gap_neg [OF this q] show ?thesis using nonneg by simp
  qed
qed


lemma fd_slope_angle_exp:
  assumes "0 < base"
  shows "get_slope_angle (get_val base) x =
     Some (arctan (base powr x * 1000000 * (exp (ln base / 1000000) - 1)))"
    and "get_slope base x = Some (base powr x * 1000000 * (ln base / 1000000))"
proof -
  have "base powr (1 / 1000000) = exp (ln base / 1000000)"
    using assms by (simp add: powr_def)
  then have "base powr (x + 1 / 1000000) = base powr x * exp (ln base / 1000000)"
    by (simp only: powr_add)
  then have "(base powr (x + 1 / 1000000) - base powr x) / (1 / 1000000)
      = base powr x * 1000000 * (exp (ln base / 1000000) - 1)"
    by (simp add: algebra_simps)
  moreover have "get_slope_angle (get_val base) x =
      Some (arctan ((base powr (x + 1 / 1000000) - base powr x) / (1 / 1000000)))"
    by (rule get_slope_angle_Some) (simp_all add: get_val_def py_pow_pos assms)
  ultimately show "get_slope_angle (get_val base) x =
     Some (arctan (base powr x * 1000000 * (exp (ln base / 1000000) - 1)))"
    by simp
  show "get_slope base x = Some (base powr x * 1000000 * (ln base / 1000000))"
    using assms by (simp add: get_slope_pos)
qed

lemma ln2_upper: "ln (2::real) \<le> 3 / 4"
proof -
  have "1 + 3 / 4 + (3 / 4)\<^sup>2 / 2 \<le> exp (3 / 4 :: real)"
    by (rule exp_lower_Taylor_quadratic) simp
  then have "2 \<le> exp (3 / 4 :: real)" by (simp add: power2_eq_square)
  then have "ln 2 \<le> ln (exp (3 / 4 :: real))" by (subst ln_le_cancel_iff) simp_all
  then show ?thesis by simp
qed

lemma ln2_lower: "2 / 3 \<le> ln (2::real)"
proof -
  have "exp (1 / 12 :: real) \<le> 1 + 1 / 12 + (1 / 12)\<^sup>2" by (rule exp_bound) simp_all
  then have "exp (1 / 12 :: real) \<le> 157 / 144" by (simp add: power2_eq_square)
  then have "exp (1 / 12 :: real) ^ 8 \<le> (157 / 144) ^ 8" by (rule power_mono) simp
  also have "\<dots> \<le> (2::real)" by (simp add: power_divide)
  finally have "exp (1 / 12 :: real) ^ 8 \<le> 2" .
  moreover have "exp (1 / 12 :: real) ^ 8 = exp (of_nat 8 * (1 / 12))"
    by (rule exp_of_nat_mult [symmetric])
  ultimately have "exp (2 / 3 :: real) \<le> 2" by simp
  then have "ln (exp (2 / 3 :: real)) \<le> ln 2" by (subst ln_le_cancel_iff) simp_all
  then show ?thesis by simp
qed


lemma large_base_gap:
  "1 / 10000 <
     arctan ((2 ^ 768) powr (- 3 / 256) * 1000000 * (exp (ln (2 ^ 768) / 1000000) - 1))
     - arctan ((2 ^ 768) powr (- 3 / 256) * 1000000 * (ln (2 ^ 768) / 1000000 :: real))"
proof -
  define l where "l = ln (2::real)"
  define u where "u = 768 * l / 1000000"
  define q where "q = (1000000 / 512 :: real)"
  have l: "2 / 3 \<le> l" "l \<le> 3 / 4" unfolding l_def by (rule ln2_lower, rule ln2_upper)
  have u0: "0 \<le> u" and u1: "u \<le> 1 / 1000" using l by (simp_all add: u_def)
  have lnB: "ln (2 ^ 768 :: real) = 768 * l"
    unfolding l_def by (simp only: ln_realpow of_nat_numeral)
  have "(2 ^ 768 :: real) = 2 powr 768" by (simp add: powr_realpow [symmetric])
  then have "(2 ^ 768 :: real) powr (- 3 / 256) = 2 powr (768 * (- 3 / 256))"
    by (simp only: powr_powr)
  also have "\<dots> = 2 powr (- 9)" by simp
  also have "\<dots> = 1 / 2 powr 9" by (simp only: powr_minus_divide)
  also have "(2::real) powr 9 = 2 ^ 9" using powr_realpow [of 2 9] by simp
  finally have pw: "(2 ^ 768 :: real) powr (- 3 / 256) = 1 / 512" by simp
  let ?a = "q * u" and ?b = "q * (exp u - 1)"
  have q0: "0 < q" by (simp add: q_def)
  have a0: "0 \<le> ?a" using q0 u0 by simp
  have "u \<le> exp u - 1" using exp_ge_add_one_self [of u] by linarith
  then have ab: "?a \<le> ?b" using q0 by (intro mult_left_mono) simp_all
  have a_eq: "?a = 3 / 2 * l" by (simp add: q_def u_def)
  have "1 + u + u\<^sup>2 / 2 \<le> exp u" by (rule exp_lower_Taylor_quadratic [OF u0])
  then have "u\<^sup>2 / 2 \<le> exp u - 1 - u" by simp
  then have "q * (u\<^sup>2 / 2) \<le> q * (exp u - 1 - u)"
    using q0 by (intro mult_left_mono) simp_all
  moreover have "q * (u\<^sup>2 / 2) = 576 / 1000000 * l\<^sup>2"
    by (simp add: q_def u_def power2_eq_square)
  moreover have "(2 / 3)\<^sup>2 \<le> l\<^sup>2" using l(1) by (intro power_mono) simp_all
  ultimately have gap: "256 / 1000000 \<le> ?b - ?a"
    by (simp add: algebra_simps power2_eq_square)
  have "exp u \<le> 1 + u + u\<^sup>2" using u0 u1 by (intro exp_bound) simp_all
  then have "exp u - 1 \<le> u * (1 + u)" by (simp add: power2_eq_square algebra_simps)
  also have "\<dots> \<le> u * (1 + 1 / 1000)" using u0 u1 by (intro mult_left_mono) simp_all
  finally have "q * (exp u - 1) \<le> q * (u * (1 + 1 / 1000))"
    using q0 by (intro mult_left_mono) simp_all
  also have "\<dots> = 3 / 2 * l * (1001 / 1000)" by (simp add: q_def u_def)
  also have "\<dots> \<le> 3 / 2 * (3 / 4) * (1001 / 1000)" using l(2) by simp
  finally have bu: "?b \<le> 1127 / 1000" by simp
  have b0: "0 \<le> ?b" using a0 ab by linarith
  have "?b\<^sup>2 \<le> (1127 / 1000)\<^sup>2" using bu b0 by (rule power_mono)
  then have b2: "1 + ?b\<^sup>2 \<le> 228 / 100" by (simp add: power2_eq_square)
  have pos: "0 < 1 + ?b\<^sup>2" by (simp add: add_pos_nonneg)
  have lin: "(1 / 10000) * T < G" if "256 / 1000000 \<le> G" "T \<le> 228 / 100" for G T :: real
    using that by linarith
  have "(1 / 10000) * (1 + ?b\<^sup>2) < ?b - ?a" by (rule lin [OF gap b2])
  then have "1 / 10000 < (?b - ?a) / (1 + ?b\<^sup>2)"
    by (simp only: pos_less_divide_eq [OF pos])
  moreover have "(?b - ?a) / (1 + ?b\<^sup>2) \<le> arctan ?b - arctan ?a"
    by (rule arctan_diff_lower_nonneg [OF a0 ab])
  ultimately have "1 / 10000 < arctan ?b - arctan ?a" by linarith
  moreover have "(2 ^ 768 :: real) powr (- 3 / 256) * 1000000 = q"
    unfolding pw by (simp add: q_def)
  moreover have "ln (2 ^ 768 :: real) / 1000000 = u" unfolding lnB u_def by simp
  ultimately show ?thesis by simp
qed

lemma get_slope_nonpos_base: "base \<le> 0 \<Longrightarrow> get_slope base x = None"
  by (simp add: get_slope_def np_log_def)

text \<open>
  C4 (amended). For every base \<open>0 < base\<close> with \<open>\<bar>ln base\<bar> \<le> 399\<close> and every \<open>x\<close>
  with \<open>\<bar>x\<bar> \<le> 10\<close> (the range of the axes) and \<open>\<bar>x * ln base\<bar> \<le> 700\<close> (so that
  \<open>base^x\<close> stays within the range of the doubles), the slope angle of
  \<open>f(x) = base^x\<close> by finite differences and the analytic derivative
  \<open>ln base * base^x\<close> are both defined, and the angle differs from the arctangent of
  the derivative by less than \<open>1e-4\<close>. The bound on the base cannot be dropped: the
  relative error of the difference quotient grows with \<open>ln base\<close>, and for a base that
  is not positive the derivative has no finite value. The bounds on \<open>x\<close> keep the
  doubles of the code within rounding of the reals.
\<close>

theorem fd_angle_close_to_analytic:
  assumes "0 < base" "\<bar>ln base\<bar> \<le> 399" "\<bar>x\<bar> \<le> 10" "\<bar>x * ln base\<bar> \<le> 700"
  shows "\<exists>angle d. get_slope_angle (get_val base) x = Some angle \<and> get_slope base x = Some d
      \<and> \<bar>angle - arctan d\<bar> < 1 / 10000"
proof -
  have u: "\<bar>ln base / 1000000\<bar> \<le> 399 / 1000000" using assms(2) by simp
  have q: "0 < base powr x * 1000000" using assms(1) by simp
  from fd_angle_gap [OF u q] show ?thesis
    unfolding fd_slope_angle_exp [OF assms(1)] by blast
qed

theorem fd_angle_close_to_analytic_witness:
  "(0::real) < 2 \<and> \<bar>ln (2::real)\<bar> \<le> 399 \<and> \<bar>0::real\<bar> \<le> 10 \<and> \<bar>0 * ln (2::real)\<bar> \<le> 700 \<and>
   (\<exists>angle d. get_slope_angle fun1 0 = Some angle \<and> get_slope 2 0 = Some d
      \<and> \<bar>angle - arctan d\<bar> < 1 / 10000) \<and>
   (0::real) < 3 \<and> \<bar>ln (3::real)\<bar> \<le> 399 \<and> \<bar>1::real\<bar> \<le> 10 \<and> \<bar>1 * ln (3::real)\<bar> \<le> 700 \<and>
   (\<exists>angle d. get_slope_angle fun2 1 = Some angle \<and> get_slope 3 1 = Some d
      \<and> \<bar>angle - arctan d\<bar> < 1 / 10000)"
proof -
  have f1: "fun1 = get_val 2" by (rule ext) (simp add: fun1_def get_val_def)
  have f2: "fun2 = get_val 3" by (rule ext) (simp add: fun2_def get_val_def)
  have l2: "\<bar>ln (2::real)\<bar> \<le> 399" using ln2_lower ln2_upper by simp
  have "ln (3::real) \<le> 3 - 1" by (rule ln_le_minus_one) simp
  moreover have "0 \<le> ln (3::real)" by simp
  ultimately have l3: "\<bar>ln (3::real)\<bar> \<le> 399" by simp
  have p2: "(0::real) < 2" and p3: "(0::real) < 3" by simp_all
  have x2: "\<bar>0::real\<bar> \<le> 10" "\<bar>0 * ln (2::real)\<bar> \<le> 700" by simp_all
  have x3: "\<bar>1::real\<bar> \<le> 10" "\<bar>1 * ln (3::real)\<bar> \<le> 700" using l3 by simp_all
  show ?thesis
    using fd_angle_close_to_analytic [OF p2 l2 x2]
      fd_angle_close_to_analytic [OF p3 l3 x3] l2 l3
    unfolding f1 f2 by simp
qed

text \<open>
  The claim C4 as stated, for every real base, fails at the base \<open>2^768\<close> and
  \<open>x = -3/256\<close>: both values are defined, and the two angles are more than \<open>1e-4\<close>
  apart.
\<close>

theorem fd_angle_far_at_large_base:
  "get_slope_angle (get_val (2 ^ 768)) (- 3 / 256) \<noteq> None
   \<and> get_slope (2 ^ 768) (- 3 / 256) \<noteq> None
   \<and> \<not> \<bar>the (get_slope_angle (get_val (2 ^ 768)) (- 3 / 256))
          - arctan (the (get_slope (2 ^ 768) (- 3 / 256)))\<bar> < 1 / 10000"
proof -
  have B: "(0::real) < 2 ^ 768" by simp
  show ?thesis
    unfolding fd_slope_angle_exp [OF B] using large_base_gap by simp
qed

subsection \<open>The round trip through the angle in double precision\<close>



















end
